theory Spec2Isabelle
  imports Main "HOL-Library.AList"
begin

section \<open>Python string operations used by unifi.py\<close>

text \<open>
  Strings are read as ASCII text: one \<open>char\<close> per character. Code points above 127
  are outside the model (Python's \<open>str.upper\<close> and \<open>str.strip\<close> treat some of them
  specially).
\<close>

text \<open>\<open>str.isspace\<close> on an ASCII character: TAB, LF, VT, FF, CR, FS, GS, RS, US, space.\<close>

definition isspace :: "char \<Rightarrow> bool" where
  "isspace c \<longleftrightarrow>
     c \<in> {CHR 0x09, CHR 0x0A, CHR 0x0B, CHR 0x0C, CHR 0x0D,
          CHR 0x1C, CHR 0x1D, CHR 0x1E, CHR 0x1F, CHR 0x20}"

text \<open>\<open>s.strip()\<close>: drop the whitespace at both ends.\<close>

definition strip :: "string \<Rightarrow> string" where
  "strip s = rev (dropWhile isspace (rev (dropWhile isspace s)))"

text \<open>\<open>s.replace(a, b)\<close> for one-character \<open>a\<close> and \<open>b\<close>.\<close>

definition replace :: "char \<Rightarrow> char \<Rightarrow> string \<Rightarrow> string" where
  "replace a b s = map (\<lambda>c. if c = a then b else c) s"

definition upper_char :: "char \<Rightarrow> char" where
  "upper_char c =
     (case map_of (zip ''abcdefghijklmnopqrstuvwxyz'' ''ABCDEFGHIJKLMNOPQRSTUVWXYZ'') c of
        None \<Rightarrow> c
      | Some u \<Rightarrow> u)"

text \<open>\<open>s.upper()\<close>.\<close>

definition upper :: "string \<Rightarrow> string" where
  "upper s = map upper_char s"

text \<open>
  Lines 109-110 of \<open>main\<close>:
  \<^verbatim>\<open>raw = row["MAC"].strip()\<close>,
  \<^verbatim>\<open>mac = raw.replace('-', ':').replace('.', ':').upper()\<close>.
\<close>

definition normalize_mac :: "string \<Rightarrow> string" where
  "normalize_mac cell =
     (let raw = strip cell
      in upper (replace (CHR ''.'') (CHR '':'') (replace (CHR ''-'') (CHR '':'') raw)))"

section \<open>Exceptions and Python values\<close>

text \<open>
  The exception classes that can reach the handlers of \<open>main\<close>. All of them derive from
  \<open>Exception\<close>; \<open>RequestException\<close> stands for \<open>requests.exceptions.RequestException\<close>
  and its subclasses (\<open>HTTPError\<close>, \<open>ConnectionError\<close>, ...), \<open>OSError\<close> for the
  other subclasses of \<open>OSError\<close>.
\<close>

datatype exn =
    RequestException
  | RuntimeError
  | KeyError
  | ValueError
  | TypeError
  | AttributeError
  | FileNotFoundError
  | OSError

text \<open>\<open>d[k]\<close> on a dict.\<close>

definition getitem :: "('k \<rightharpoonup> 'v) \<Rightarrow> 'k \<Rightarrow> exn + 'v" where
  "getitem d k = (case d k of None \<Rightarrow> Inl KeyError | Some v \<Rightarrow> Inr v)"

text \<open>Sequencing of two steps that may raise.\<close>

definition and_then :: "exn + 'a \<Rightarrow> ('a \<Rightarrow> exn + 'b) \<Rightarrow> exn + 'b" where
  "and_then r f = (case r of Inl e \<Rightarrow> Inl e | Inr v \<Rightarrow> f v)"

text \<open>
  A decoded JSON value. Floating-point numbers are outside the model; the controller's
  \<open>vlan\<close> field is an integer.
\<close>

datatype jval =
    JNull
  | JBool bool
  | JInt int
  | JStr string
  | JArr "jval list"
  | JObj "(string \<times> jval) list"

text \<open>Truth value of a Python object, as tested by \<open>not net_id\<close>.\<close>

fun truthy :: "jval \<Rightarrow> bool" where
  "truthy JNull = False"
| "truthy (JBool b) = b"
| "truthy (JInt i) = (i \<noteq> 0)"
| "truthy (JStr s) = (s \<noteq> [])"
| "truthy (JArr xs) = (xs \<noteq> [])"
| "truthy (JObj kvs) = (kvs \<noteq> [])"

text \<open>\<open>x == 1\<close>: \<open>True == 1\<close> holds in Python.\<close>

fun eq_one :: "jval \<Rightarrow> bool" where
  "eq_one (JInt i) = (i = 1)"
| "eq_one (JBool b) = b"
| "eq_one _ = False"

section \<open>\<open>int()\<close>\<close>

text \<open>The whitespace \<open>int()\<close> skips at both ends of an ASCII string (C's \<open>isspace\<close>).\<close>

definition c_isspace :: "char \<Rightarrow> bool" where
  "c_isspace c \<longleftrightarrow> c \<in> {CHR 0x09, CHR 0x0A, CHR 0x0B, CHR 0x0C, CHR 0x0D, CHR 0x20}"

definition isdigit :: "char \<Rightarrow> bool" where
  "isdigit c \<longleftrightarrow> c \<in> set ''0123456789''"

definition digit_val :: "char \<Rightarrow> nat" where
  "digit_val c =
     (case map_of (zip ''0123456789'' [0, 1, 2, 3, 4, 5, 6, 7, 8, 9]) c of
        None \<Rightarrow> 0
      | Some d \<Rightarrow> d)"

text \<open>Decimal digits, where single underscores may stand between two digits.\<close>

fun digits_ok :: "string \<Rightarrow> bool" where
  "digits_ok [] = False"
| "digits_ok [c] = isdigit c"
| "digits_ok (c # d # r) =
     (isdigit c \<and> (if d = CHR ''_'' then digits_ok r else digits_ok (d # r)))"

definition decimal :: "string \<Rightarrow> nat" where
  "decimal ds = foldl (\<lambda>n c. 10 * n + digit_val c) 0 (filter (\<lambda>c. c \<noteq> CHR ''_'') ds)"

text \<open>
  \<open>int(s)\<close> for a string: optional whitespace, an optional sign, decimal digits.
  (The limit on the number of digits of recent Python versions is not modelled.)
\<close>

definition int_of_str :: "string \<Rightarrow> exn + int" where
  "int_of_str s =
     (let t = rev (dropWhile c_isspace (rev (dropWhile c_isspace s)));
          neg = (t \<noteq> [] \<and> hd t = CHR ''-'');
          ds = (if t \<noteq> [] \<and> (hd t = CHR ''-'' \<or> hd t = CHR ''+'') then tl t else t)
      in if digits_ok ds
         then Inr (if neg then - int (decimal ds) else int (decimal ds))
         else Inl ValueError)"

text \<open>\<open>int(x)\<close> for a decoded JSON value.\<close>

fun int_of_jval :: "jval \<Rightarrow> exn + int" where
  "int_of_jval (JInt i) = Inr i"
| "int_of_jval (JBool b) = Inr (if b then 1 else 0)"
| "int_of_jval (JStr s) = int_of_str s"
| "int_of_jval JNull = Inl TypeError"
| "int_of_jval (JArr xs) = Inl TypeError"
| "int_of_jval (JObj kvs) = Inl TypeError"

section \<open>\<open>ipaddress.ip_address\<close>\<close>

text \<open>
  Whether the standard library accepts a string as an address literal (CPython 3.11's
  \<open>ipaddress\<close> module); only acceptance is modelled, not the address value.
\<close>

text \<open>\<open>s.split(sep)\<close> for a one-character separator.\<close>

fun split :: "char \<Rightarrow> string \<Rightarrow> string list" where
  "split sep [] = [[]]"
| "split sep (c # cs) =
     (if c = sep then [] # split sep cs
      else (c # hd (split sep cs)) # tl (split sep cs))"

text \<open>\<open>_BaseV4._parse_octet\<close>.\<close>

definition parse_octet :: "string \<Rightarrow> bool" where
  "parse_octet octet_str \<longleftrightarrow>
     octet_str \<noteq> [] \<and> list_all isdigit octet_str \<and> length octet_str \<le> 3 \<and>
     \<not> (octet_str \<noteq> ''0'' \<and> hd octet_str = CHR ''0'') \<and> decimal octet_str \<le> 255"

text \<open>\<open>IPv4Address(addr_str)\<close> with \<open>_BaseV4._ip_int_from_string\<close>.\<close>

definition ipv4_address :: "string \<Rightarrow> bool" where
  "ipv4_address addr_str \<longleftrightarrow>
     CHR ''/'' \<notin> set addr_str \<and> addr_str \<noteq> [] \<and>
     (let octets = split (CHR ''.'') addr_str
      in length octets = 4 \<and> list_all parse_octet octets)"

definition ishex :: "char \<Rightarrow> bool" where
  "ishex c \<longleftrightarrow> c \<in> set ''0123456789ABCDEFabcdef''"

text \<open>\<open>_BaseV6._parse_hextet\<close>; \<open>int('', 16)\<close> raises on the empty string.\<close>

definition parse_hextet :: "string \<Rightarrow> bool" where
  "parse_hextet hextet_str \<longleftrightarrow>
     list_all ishex hextet_str \<and> length hextet_str \<le> 4 \<and> hextet_str \<noteq> []"

text \<open>
  \<open>_BaseV6._ip_int_from_string\<close>. An IPv4-style last part is replaced by two hextets,
  which always parse; they are written \<open>''0''\<close> here.
\<close>

definition ipv6_int_from_string :: "string \<Rightarrow> bool" where
  "ipv6_int_from_string ip_str \<longleftrightarrow>
     ip_str \<noteq> [] \<and>
     (let parts0 = split (CHR '':'') ip_str;
          v4 = (CHR ''.'' \<in> set (last parts0));
          parts = (if v4 then butlast parts0 @ [''0'', ''0''] else parts0);
          n = length parts;
          skips = filter (\<lambda>i. parts ! i = []) [1 ..< n - 1]
      in 3 \<le> length parts0 \<and>
         (if v4 then ipv4_address (last parts0) else True) \<and>
         n \<le> 9 \<and>
         length skips \<le> 1 \<and>
         (case skips of
            [] \<Rightarrow>
              n = 8 \<and> hd parts \<noteq> [] \<and> last parts \<noteq> [] \<and> list_all parse_hextet parts
          | skip_index # _ \<Rightarrow>
              (let parts_hi = (if hd parts = [] then skip_index - 1 else skip_index);
                   parts_lo = (if last parts = [] then n - skip_index - 1 - 1
                               else n - skip_index - 1)
               in \<not> (hd parts = [] \<and> parts_hi \<noteq> 0) \<and>
                  \<not> (last parts = [] \<and> parts_lo \<noteq> 0) \<and>
                  parts_hi + parts_lo < 8 \<and>
                  list_all parse_hextet (take parts_hi parts) \<and>
                  list_all parse_hextet (drop (n - parts_lo) parts))))"

text \<open>\<open>IPv6Address(addr_str)\<close> with \<open>_split_scope_id\<close>.\<close>

definition ipv6_address :: "string \<Rightarrow> bool" where
  "ipv6_address addr_str \<longleftrightarrow>
     CHR ''/'' \<notin> set addr_str \<and>
     (let addr = takeWhile (\<lambda>c. c \<noteq> CHR ''%'') addr_str;
          rest = dropWhile (\<lambda>c. c \<noteq> CHR ''%'') addr_str
      in \<not> (rest \<noteq> [] \<and> (tl rest = [] \<or> CHR ''%'' \<in> set (tl rest))) \<and>
         ipv6_int_from_string addr)"

text \<open>\<open>ipaddress.ip_address(s)\<close> returns (rather than raising \<open>ValueError\<close>).\<close>

definition ip_address :: "string \<Rightarrow> bool" where
  "ip_address s \<longleftrightarrow> ipv4_address s \<or> ipv6_address s"

section \<open>The run and what it does to the outside world\<close>

text \<open>The body of one \<open>POST .../rest/user\<close> request (lines 121-130).\<close>

record payload =
  mac :: string
  fixed_ip :: string
  name :: string
  network_id :: jval
  use_fixedip :: bool
  note_text :: string
  vlan_enabled :: bool
  vlan :: int

text \<open>The lines the script prints, one constructor per \<open>print\<close> statement.\<close>

datatype message =
    Secrets_not_found
  | Please_create_secrets
  | Connecting
  | Found_networks nat
  | Mapped_main_lan jval
  | Mapped_vlan int jval jval
  | Available_vlans "int list"
  | Columns_missing
  | Unknown_vlan int "string option"
  | Invalid_ip string string
  | Setting_static_ip string string string int
  | Row_ok string string int
  | Row_failed string string
  | Summary nat nat
  | Csv_not_found
  | Network_error
  | Error exn
  | Logged_out

text \<open>What the run does, in order: lines printed, requests sent, the file opened.\<close>

datatype event =
    Print message
  | Post_login
  | Get_self
  | Get_networkconf
  | Open_csv
  | Post_user payload
  | Post_logout

text \<open>
  An HTTP response as far as \<open>main\<close> reads it: \<open>r.status_code\<close>, the header
  \<open>x-csrf-token\<close>, the value of \<open>r.json().get("data", [])\<close> (a list of JSON objects, or
  the exception raised on the way) and \<open>r.text\<close> (the field \<open>body_text\<close>).
\<close>

type_synonym network = "string \<rightharpoonup> jval"

record response =
  status_code :: nat
  x_csrf_token :: "string option"
  json_data :: "exn + network list"
  body_text :: string

text \<open>\<open>r.raise_for_status()\<close> raises \<open>HTTPError\<close> for the status codes 400 to 599.\<close>

definition raise_for_status :: "response \<Rightarrow> exn option" where
  "raise_for_status r =
     (if 400 \<le> status_code r \<and> status_code r < 600 then Some RequestException else None)"

text \<open>\<open>r.ok\<close>.\<close>

definition ok :: "response \<Rightarrow> bool" where
  "ok r \<longleftrightarrow> raise_for_status r = None"

text \<open>
  Everything outside the script: whether \<open>from secrets import UDM, USER, PASS, SITE\<close>
  succeeds, the outcome of each request (an exception or a response; the answer to a
  \<open>POST .../rest/user\<close> may depend on all that happened before), and the outcome of
  opening and reading \<open>devices.csv\<close> (an exception, or the records \<open>csv.reader\<close> yields,
  an empty list for a blank line). A file is read whole or not at all: an error in the
  middle of the file is not modelled.
\<close>

record env =
  secrets_importable :: bool
  login :: "exn + response"
  self :: "exn + response"
  networkconf :: "exn + response"
  csv_file :: "exn + string list list"
  post_user :: "event list \<Rightarrow> payload \<Rightarrow> exn + response"
  logout :: "exn + response"

definition DEBUG :: bool where
  "DEBUG = True"

text \<open>\<open>if DEBUG: print(...)\<close>.\<close>

definition debug :: "message \<Rightarrow> event list" where
  "debug m = (if DEBUG then [Print m] else [])"

section \<open>Stages 1 and 2: login and CSRF token (lines 48-59)\<close>

definition establish_session :: "env \<Rightarrow> event list \<times> exn option" where
  "establish_session env =
     (case login env of
        Inl e \<Rightarrow> ([Print Connecting, Post_login], Some e)
      | Inr r \<Rightarrow>
          (case raise_for_status r of
             Some e \<Rightarrow> ([Print Connecting, Post_login], Some e)
           | None \<Rightarrow>
               (case self env of
                  Inl e \<Rightarrow> ([Print Connecting, Post_login, Get_self], Some e)
                | Inr r \<Rightarrow>
                    (case raise_for_status r of
                       Some e \<Rightarrow> ([Print Connecting, Post_login, Get_self], Some e)
                     | None \<Rightarrow>
                         (let csrf = x_csrf_token r
                          in if csrf = None \<or> csrf = Some []
                             then ([Print Connecting, Post_login, Get_self], Some RuntimeError)
                             else ([Print Connecting, Post_login, Get_self], None))))))"

section \<open>Stage 3: the VLAN to network map (lines 62-86)\<close>

text \<open>
  The dicts \<open>vlan_map\<close> and \<open>subnet_map\<close> are lists of key-value pairs in insertion
  order: \<open>d[k] = v\<close> is \<open>AList.update k v d\<close> and \<open>d.get(k)\<close> is \<open>map_of d k\<close>.
\<close>

type_synonym vlan_dict = "(int \<times> jval) list"

record resolver =
  vlan_map :: vlan_dict
  subnet_map :: vlan_dict
  out :: "event list"

text \<open>\<open>net.get("ip_subnet", "")\<close>.\<close>

definition get_ip_subnet :: "network \<Rightarrow> jval" where
  "get_ip_subnet net = (case net ''ip_subnet'' of None \<Rightarrow> JStr [] | Some v \<Rightarrow> v)"

text \<open>
  The condition of line 73:
  \<^verbatim>\<open>'purpose' in net and net['purpose'] == 'corporate' and ('vlan' not in net or net.get('vlan') == 1)\<close>.
\<close>

definition main_lan :: "network \<Rightarrow> bool" where
  "main_lan net \<longleftrightarrow>
     (case net ''purpose'' of None \<Rightarrow> False | Some p \<Rightarrow> p = JStr ''corporate'') \<and>
     (case net ''vlan'' of None \<Rightarrow> True | Some v \<Rightarrow> eq_one v)"

text \<open>The body of the loop of line 71.\<close>

definition map_network :: "network \<Rightarrow> resolver \<Rightarrow> exn + resolver" where
  "map_network net st =
     (if main_lan net then
        (case getitem net ''_id'' of
           Inl e \<Rightarrow> Inl e
         | Inr i \<Rightarrow>
             Inr (st\<lparr>vlan_map := AList.update 1 i (vlan_map st),
                     subnet_map := AList.update 1 (get_ip_subnet net) (subnet_map st),
                     out := out st @ debug (Mapped_main_lan i)\<rparr>))
      else
        (case net ''vlan'' of
           None \<Rightarrow> Inr st
         | Some v \<Rightarrow>
             (case int_of_jval v of
                Inl e \<Rightarrow> Inl e
              | Inr vlan_id \<Rightarrow>
                  (case getitem net ''_id'' of
                     Inl e \<Rightarrow> Inl e
                   | Inr i \<Rightarrow>
                       Inr (st\<lparr>vlan_map := AList.update vlan_id i (vlan_map st),
                               subnet_map :=
                                 AList.update vlan_id (get_ip_subnet net) (subnet_map st),
                               out := out st
                                 @ debug (Mapped_vlan vlan_id i (get_ip_subnet net))\<rparr>)))))"

text \<open>The loop; an exception leaves it with the state reached so far.\<close>

fun map_networks :: "network list \<Rightarrow> resolver \<Rightarrow> resolver \<times> exn option" where
  "map_networks [] st = (st, None)"
| "map_networks (net # nets) st =
     (case map_network net st of
        Inl e \<Rightarrow> (st, Some e)
      | Inr st' \<Rightarrow> map_networks nets st')"

text \<open>\<open>sorted(list(vlan_map.keys()))\<close>.\<close>

definition sorted_keys :: "vlan_dict \<Rightarrow> int list" where
  "sorted_keys d = sort (map fst d)"

definition fetch_vlan_map :: "env \<Rightarrow> event list \<Rightarrow> resolver \<times> exn option" where
  "fetch_vlan_map env tr =
     (let st0 = \<lparr>vlan_map = [], subnet_map = [], out = tr @ [Get_networkconf]\<rparr>
      in case networkconf env of
           Inl e \<Rightarrow> (st0, Some e)
         | Inr r \<Rightarrow>
             (case raise_for_status r of
                Some e \<Rightarrow> (st0, Some e)
              | None \<Rightarrow>
                  (case json_data r of
                     Inl e \<Rightarrow> (st0, Some e)
                   | Inr network_data \<Rightarrow>
                       (case map_networks network_data
                               (st0\<lparr>out := out st0
                                      @ debug (Found_networks (length network_data))\<rparr>) of
                          (st, Some e) \<Rightarrow> (st, Some e)
                        | (st, None) \<Rightarrow>
                            (st\<lparr>out := out st
                                   @ debug (Available_vlans (sorted_keys (vlan_map st)))\<rparr>,
                             None)))))"

section \<open>Stage 4: the rows of the CSV file (lines 91-147)\<close>

text \<open>
  A row as \<open>csv.DictReader\<close> yields it: a dict from the field names to the cells of the
  record; a record shorter than the header has \<open>None\<close> for the missing cells, and of a
  repeated field name the last column counts.
\<close>

type_synonym row = "string \<rightharpoonup> string option"

definition dict_row :: "string list \<Rightarrow> string list \<Rightarrow> row" where
  "dict_row fieldnames record =
     map_of (rev (zip fieldnames
                      (map Some record @ replicate (length fieldnames - length record) None)))"

text \<open>\<open>reader.fieldnames\<close>: the first record of the file, \<open>None\<close> for an empty file.\<close>

definition fieldnames_of :: "string list list \<Rightarrow> string list option" where
  "fieldnames_of records = (case records of [] \<Rightarrow> None | header # _ \<Rightarrow> Some header)"

text \<open>The records behind the header; \<open>DictReader\<close> passes over blank lines.\<close>

definition data_rows :: "string list list \<Rightarrow> string list list" where
  "data_rows records = filter (\<lambda>record. record \<noteq> []) (tl records)"

definition required_fields :: "string list" where
  "required_fields = [''VLAN'', ''MAC'', ''Client Name'', ''IP'']"

text \<open>\<open>int(cell)\<close> and a string method on a cell; the cell may be \<open>None\<close>.\<close>

definition int_of_cell :: "string option \<Rightarrow> exn + int" where
  "int_of_cell cell = (case cell of None \<Rightarrow> Inl TypeError | Some s \<Rightarrow> int_of_str s)"

definition on_str :: "(string \<Rightarrow> 'a) \<Rightarrow> string option \<Rightarrow> exn + 'a" where
  "on_str f cell = (case cell of None \<Rightarrow> Inl AttributeError | Some s \<Rightarrow> Inr (f s))"

text \<open>The local variables of the row loop that outlive a row, and the events so far.\<close>

record loop =
  success_count :: nat
  error_count :: nat
  trace :: "event list"

text \<open>Lines 105-107: the row of an unknown VLAN is skipped.\<close>

definition unknown_vlan :: "row \<Rightarrow> int \<Rightarrow> loop \<Rightarrow> loop \<times> exn option" where
  "unknown_vlan row vlan_num st =
     (case getitem row ''MAC'' of
        Inl e \<Rightarrow> (st, Some e)
      | Inr m \<Rightarrow>
          (st\<lparr>error_count := error_count st + 1,
              trace := trace st @ [Print (Unknown_vlan vlan_num m)]\<rparr>, None))"

text \<open>Lines 132-141: the request and the count of its outcome.\<close>

definition upsert :: "env \<Rightarrow> payload \<Rightarrow> loop \<Rightarrow> loop \<times> exn option" where
  "upsert env p st =
     (let tr = trace st @ debug (Setting_static_ip (name p) (mac p) (fixed_ip p) (vlan p))
      in case post_user env tr p of
           Inl e \<Rightarrow> (st\<lparr>trace := tr @ [Post_user p]\<rparr>, Some e)
         | Inr resp \<Rightarrow>
             if ok resp
             then (st\<lparr>success_count := success_count st + 1,
                      trace := tr @ [Post_user p,
                                     Print (Row_ok (mac p) (fixed_ip p) (vlan p))]\<rparr>, None)
             else (st\<lparr>error_count := error_count st + 1,
                      trace := tr @ [Post_user p,
                                     Print (Row_failed (mac p) (body_text resp))]\<rparr>, None))"

text \<open>The body of the loop of line 101.\<close>

definition process_row :: "env \<Rightarrow> vlan_dict \<Rightarrow> row \<Rightarrow> loop \<Rightarrow> loop \<times> exn option" where
  "process_row env vmap row st =
     (case and_then (getitem row ''VLAN'') int_of_cell of
        Inl e \<Rightarrow> (st, Some e)
      | Inr vlan_num \<Rightarrow>
          (case map_of vmap vlan_num of
             None \<Rightarrow> unknown_vlan row vlan_num st
           | Some net_id \<Rightarrow>
               if \<not> truthy net_id then unknown_vlan row vlan_num st
               else
                 (case and_then (getitem row ''MAC'') (on_str normalize_mac) of
                    Inl e \<Rightarrow> (st, Some e)
                  | Inr mac_addr \<Rightarrow>
                      (case and_then (getitem row ''IP'') (on_str strip) of
                         Inl e \<Rightarrow> (st, Some e)
                       | Inr ip \<Rightarrow>
                           if \<not> ip_address ip
                           then (st\<lparr>error_count := error_count st + 1,
                                    trace := trace st @ [Print (Invalid_ip ip mac_addr)]\<rparr>,
                                 None)
                           else
                             (case and_then (getitem row ''Client Name'') (on_str strip) of
                                Inl e \<Rightarrow> (st, Some e)
                              | Inr client \<Rightarrow>
                                  upsert env
                                    \<lparr>mac = mac_addr, fixed_ip = ip, name = client,
                                     network_id = net_id, use_fixedip = True,
                                     note_text = ''Added by unifi.py script'',
                                     vlan_enabled = True, vlan = vlan_num\<rparr> st)))))"

text \<open>The loop; an exception leaves it with the state reached so far.\<close>

fun process_rows :: "env \<Rightarrow> vlan_dict \<Rightarrow> row list \<Rightarrow> loop \<Rightarrow> loop \<times> exn option" where
  "process_rows env vmap [] st = (st, None)"
| "process_rows env vmap (row # rows) st =
     (case process_row env vmap row st of
        (st', Some e) \<Rightarrow> (st', Some e)
      | (st', None) \<Rightarrow> process_rows env vmap rows st')"

text \<open>How a block of \<open>main\<close> ends: it runs to its end, returns from \<open>main\<close>, or raises.\<close>

datatype control = Completed | Returned | Raised exn

text \<open>The \<open>with\<close> block, lines 92-143.\<close>

definition read_csv :: "env \<Rightarrow> vlan_dict \<Rightarrow> event list \<Rightarrow> event list \<times> control" where
  "read_csv env vmap tr =
     (case csv_file env of
        Inl e \<Rightarrow> (tr @ [Open_csv], Raised e)
      | Inr records \<Rightarrow>
          (case fieldnames_of records of
             None \<Rightarrow> (tr @ [Open_csv], Raised TypeError)
           | Some fieldnames \<Rightarrow>
               if \<not> list_all (\<lambda>field. field \<in> set fieldnames) required_fields
               then (tr @ [Open_csv, Print Columns_missing], Returned)
               else
                 (case process_rows env vmap (map (dict_row fieldnames) (data_rows records))
                         \<lparr>success_count = 0, error_count = 0, trace = tr @ [Open_csv]\<rparr> of
                    (st, Some e) \<Rightarrow> (trace st, Raised e)
                  | (st, None) \<Rightarrow>
                      (trace st @ [Print (Summary (success_count st) (error_count st))],
                       Completed))))"

text \<open>Lines 91-147: the \<open>with\<close> block under \<open>except FileNotFoundError\<close>.\<close>

definition push_static_dhcp :: "env \<Rightarrow> vlan_dict \<Rightarrow> event list \<Rightarrow> event list \<times> control" where
  "push_static_dhcp env vmap tr =
     (case read_csv env vmap tr of
        (tr', Raised e) \<Rightarrow>
          if e = FileNotFoundError then (tr' @ [Print Csv_not_found], Returned)
          else (tr', Raised e)
      | (tr', c) \<Rightarrow> (tr', c))"

section \<open>\<open>main\<close> and the script\<close>

text \<open>The body of the outer \<open>try\<close>, lines 48-147.\<close>

definition main_try :: "env \<Rightarrow> event list \<times> control" where
  "main_try env =
     (case establish_session env of
        (tr, Some e) \<Rightarrow> (tr, Raised e)
      | (tr, None) \<Rightarrow>
          (case fetch_vlan_map env tr of
             (st, Some e) \<Rightarrow> (out st, Raised e)
           | (st, None) \<Rightarrow> push_static_dhcp env (vlan_map st) (out st)))"

text \<open>The handlers of lines 149-152.\<close>

definition handlers :: "control \<Rightarrow> event list" where
  "handlers c =
     (case c of
        Raised e \<Rightarrow> if e = RequestException then [Print Network_error] else [Print (Error e)]
      | _ \<Rightarrow> [])"

text \<open>The \<open>finally\<close> block, lines 153-159; its bare \<open>except\<close> takes every exception.\<close>

definition logout_finally :: "env \<Rightarrow> event list" where
  "logout_finally env =
     (case logout env of
        Inl e \<Rightarrow> [Post_logout]
      | Inr r \<Rightarrow> [Post_logout, Print Logged_out])"

text \<open>\<open>main()\<close> returns \<open>None\<close> on every path; what remains of it are its events.\<close>

definition main :: "env \<Rightarrow> event list" where
  "main env = (case main_try env of (tr, c) \<Rightarrow> tr @ handlers c @ logout_finally env)"

text \<open>The script: lines 21-26, then \<open>main()\<close>; the events and the exit status.\<close>

definition script :: "env \<Rightarrow> event list \<times> nat" where
  "script env =
     (if secrets_importable env then (main env, 0)
      else ([Print Secrets_not_found, Print Please_create_secrets], 1))"

section \<open>Reading a run\<close>

text \<open>The bodies of the \<open>POST .../rest/user\<close> requests of a run, in order.\<close>

fun upserts :: "event list \<Rightarrow> payload list" where
  "upserts [] = []"
| "upserts (Post_user p # es) = p # upserts es"
| "upserts (_ # es) = upserts es"

text \<open>The summary lines of a run: the two counters printed by line 143.\<close>

fun summaries :: "event list \<Rightarrow> (nat \<times> nat) list" where
  "summaries [] = []"
| "summaries (Print (Summary s e) # es) = (s, e) # summaries es"
| "summaries (_ # es) = summaries es"

text \<open>
  The lines a run prints for rows in error: an unknown VLAN (line 105), an invalid
  address (line 117), a request the controller answered with a failure (line 140).
\<close>

fun error_lines :: "event list \<Rightarrow> message list" where
  "error_lines [] = []"
| "error_lines (Print (Unknown_vlan v m) # es) = Unknown_vlan v m # error_lines es"
| "error_lines (Print (Invalid_ip a m) # es) = Invalid_ip a m # error_lines es"
| "error_lines (Print (Row_failed m t) # es) = Row_failed m t # error_lines es"
| "error_lines (_ # es) = error_lines es"

text \<open>The number of logout requests of a run.\<close>

fun logouts :: "event list \<Rightarrow> nat" where
  "logouts [] = 0"
| "logouts (Post_logout # es) = Suc (logouts es)"
| "logouts (_ # es) = logouts es"

section \<open>The mapping rule as the specification words it\<close>

text \<open>
  The VLAN number under which the specification files a network object: \<open>1\<close> for an
  object of purpose \<open>corporate\<close> with no \<open>vlan\<close> field or with \<open>vlan\<close> equal to \<open>1\<close>;
  otherwise the \<open>vlan\<close> field coerced to an integer; nothing for any other object.
\<close>

definition spec_vlan_key :: "network \<Rightarrow> int option" where
  "spec_vlan_key net =
     (if net ''purpose'' = Some (JStr ''corporate'') \<and>
         (net ''vlan'' = None \<or> net ''vlan'' = Some (JInt 1))
      then Some 1
      else (case net ''vlan'' of
              None \<Rightarrow> None
            | Some v \<Rightarrow> (case int_of_jval v of Inl e \<Rightarrow> None | Inr vlan_id \<Rightarrow> Some vlan_id)))"

text \<open>
  The network objects on which the loop body does not raise: an object that is mapped
  has an \<open>_id\<close>, and its \<open>vlan\<close>, where it is read, is one that \<open>int()\<close> accepts.
\<close>

definition mappable :: "network \<Rightarrow> bool" where
  "mappable net \<longleftrightarrow>
     (if main_lan net then net ''_id'' \<noteq> None
      else (case net ''vlan'' of
              None \<Rightarrow> True
            | Some v \<Rightarrow>
                (case int_of_jval v of Inl e \<Rightarrow> False | Inr vlan_id \<Rightarrow> net ''_id'' \<noteq> None)))"

text \<open>The last object of a list that the specification files under a VLAN number.\<close>

definition last_for_vlan :: "network list \<Rightarrow> int \<Rightarrow> network option" where
  "last_for_vlan nets k = find (\<lambda>net. spec_vlan_key net = Some k) (rev nets)"

section \<open>A concrete run\<close>

text \<open>
  The end-to-end scenario of the specification: one network on VLAN 10, and a file of
  three rows, the first good, the second on an unknown VLAN, the third with a bad address.
\<close>

definition response_200 :: response where
  "response_200 =
     \<lparr>status_code = 200, x_csrf_token = Some ''token'', json_data = Inr [], body_text = []\<rparr>"

definition accept_all :: "event list \<Rightarrow> payload \<Rightarrow> exn + response" where
  "accept_all tr p = Inr response_200"

definition office_lan :: network where
  "office_lan =
     [''_id'' \<mapsto> JStr ''net-10'', ''vlan'' \<mapsto> JInt 10, ''purpose'' \<mapsto> JStr ''corporate'',
      ''ip_subnet'' \<mapsto> JStr ''10.0.10.1/24'']"

definition devices_csv :: "string list list" where
  "devices_csv =
     [[''VLAN'', ''MAC'', ''Client Name'', ''IP''],
      [''10'', ''00-11-22-33-44-55'', ''printer'', ''10.0.10.5''],
      [''99'', ''00-11-22-33-44-66'', ''camera'', ''10.0.99.5''],
      [''10'', ''00-11-22-33-44-77'', ''phone'', ''bad-ip'']]"

definition scenario :: env where
  "scenario =
     \<lparr>secrets_importable = True,
      login = Inr response_200,
      self = Inr response_200,
      networkconf = Inr (response_200\<lparr>json_data := Inr [office_lan]\<rparr>),
      csv_file = Inr devices_csv,
      post_user = accept_all,
      logout = Inr response_200\<rparr>"

section \<open>One character of the MAC normalisation\<close>

text \<open>What lines 109-110 do to one character behind the \<open>strip\<close>.\<close>

definition colon_upper :: "char \<Rightarrow> char" where
  "colon_upper c = upper_char (if c = CHR ''-'' \<or> c = CHR ''.'' then CHR '':'' else c)"

section \<open>Kinds of events\<close>

text \<open>
  The events of the stages before the CSV file is read: neither a request to the user
  endpoint, nor a logout, nor a summary line, nor the line of a row in error.
\<close>

fun setup_event :: "event \<Rightarrow> bool" where
  "setup_event (Post_user p) = False"
| "setup_event Post_logout = False"
| "setup_event (Print (Summary s e)) = False"
| "setup_event (Print (Unknown_vlan v m)) = False"
| "setup_event (Print (Invalid_ip a m)) = False"
| "setup_event (Print (Row_failed m t)) = False"
| "setup_event _ = True"

text \<open>The events of the row loop: neither a logout nor a summary line.\<close>

fun row_event :: "event \<Rightarrow> bool" where
  "row_event Post_logout = False"
| "row_event (Print (Summary s e)) = False"
| "row_event _ = True"

section \<open>Pieces of the concrete run\<close>

definition fields :: "string list" where
  "fields = [''VLAN'', ''MAC'', ''Client Name'', ''IP'']"

definition row_a :: row where
  "row_a = dict_row fields [''10'', ''00-11-22-33-44-55'', ''printer'', ''10.0.10.5'']"

definition row_b :: row where
  "row_b = dict_row fields [''99'', ''00-11-22-33-44-66'', ''camera'', ''10.0.99.5'']"

definition row_c :: row where
  "row_c = dict_row fields [''10'', ''00-11-22-33-44-77'', ''phone'', ''bad-ip'']"

text \<open>A row whose cells carry whitespace around their values.\<close>

definition row_d :: row where
  "row_d = dict_row fields [''10'', '' 00-11-22-33-44-88'', '' laptop '', ''  10.0.10.5 '']"

definition vlans_10 :: vlan_dict where
  "vlans_10 = [(10, JStr ''net-10'')]"

text \<open>The loop state before the first row, with no events before it.\<close>

definition start :: loop where
  "start = \<lparr>success_count = 0, error_count = 0, trace = []\<rparr>"

text \<open>
  A network list with two objects on VLAN 10, one on VLAN 20, an untagged corporate
  network and an object that no rule maps.
\<close>

definition example_networks :: "network list" where
  "example_networks =
     [office_lan,
      [''_id'' \<mapsto> JStr ''net-20'', ''vlan'' \<mapsto> JInt 20, ''purpose'' \<mapsto> JStr ''guest'',
       ''ip_subnet'' \<mapsto> JStr ''10.0.20.1/24''],
      [''_id'' \<mapsto> JStr ''net-main'', ''purpose'' \<mapsto> JStr ''corporate''],
      [''_id'' \<mapsto> JStr ''net-wan'', ''purpose'' \<mapsto> JStr ''wan''],
      [''_id'' \<mapsto> JStr ''net-10b'', ''vlan'' \<mapsto> JStr ''10'', ''purpose'' \<mapsto> JStr ''vlan-only'',
       ''ip_subnet'' \<mapsto> JStr ''10.0.11.1/24'']]"

text \<open>A row whose VLAN cell is not a number and whose IP cell is not an address.\<close>

definition row_e :: row where
  "row_e = dict_row fields [''abc'', ''00-11-22-33-44-77'', ''phone'', ''bad-ip'']"

text \<open>A file with that row before a good one.\<close>

definition devices_bad_vlan :: "string list list" where
  "devices_bad_vlan =
     [[''VLAN'', ''MAC'', ''Client Name'', ''IP''],
      [''abc'', ''00-11-22-33-44-77'', ''phone'', ''bad-ip''],
      [''10'', ''00-11-22-33-44-55'', ''printer'', ''10.0.10.5'']]"



section \<open>MAC normalisation\<close>

lemma dropWhile_unchanged: "xs = [] \<or> \<not> P (hd xs) \<Longrightarrow> dropWhile P xs = xs"
  by (cases xs) auto

lemma strip_fixed:
  assumes "t = [] \<or> (\<not> isspace (hd t) \<and> \<not> isspace (last t))"
  shows "strip t = t"
proof (cases "t = []")
  case True
  then show ?thesis by (simp add: strip_def)
next
  case False
  with assms have h: "\<not> isspace (hd t)" and l: "\<not> isspace (last t)" by auto
  from h have "dropWhile isspace t = t" by (simp add: dropWhile_unchanged)
  moreover from False l have "dropWhile isspace (rev t) = rev t"
    by (simp add: dropWhile_unchanged hd_rev)
  ultimately show ?thesis by (simp add: strip_def)
qed

lemma strip_ends:
  "strip s = [] \<or> (\<not> isspace (hd (strip s)) \<and> \<not> isspace (last (strip s)))"
proof (cases "strip s = []")
  case True
  then show ?thesis by simp
next
  case False
  define t where "t = dropWhile isspace s"
  define u where "u = dropWhile isspace (rev t)"
  have s: "strip s = rev u" by (simp add: strip_def t_def u_def)
  with False have u: "u \<noteq> []" by simp
  then have t: "t \<noteq> []" by (auto simp: u_def)
  from u have "\<not> isspace (hd u)" unfolding u_def by (rule hd_dropWhile)
  then have l: "\<not> isspace (last (strip s))" using u by (simp add: s last_rev)
  have "rev t = takeWhile isspace (rev t) @ u" by (simp add: u_def)
  then have "last (rev t) = last u" using u by (metis last_appendR)
  then have "last u = hd t" using t by (simp add: last_rev)
  moreover from t have "\<not> isspace (hd t)" unfolding t_def by (rule hd_dropWhile)
  ultimately have "\<not> isspace (hd (strip s))" using u by (simp add: s hd_rev)
  with l show ?thesis by simp
qed

lemma strip_strip: "strip (strip s) = strip s"
  by (rule strip_fixed) (rule strip_ends)

lemma strip_map:
  assumes "\<And>c. isspace (f c) = isspace c"
  shows "strip (map f s) = map f (strip s)"
proof -
  have "isspace \<circ> f = isspace" using assms by (simp add: fun_eq_iff)
  then show ?thesis by (simp add: strip_def dropWhile_map rev_map)
qed

lemma normalize_mac_map: "normalize_mac s = map colon_upper (strip s)"
  by (auto simp: normalize_mac_def upper_def replace_def colon_upper_def)

lemma isspace_colon_upper: "isspace (colon_upper c) = isspace c"
  by (simp add: colon_upper_def upper_char_def isspace_def)

lemma colon_upper_idem: "colon_upper (colon_upper c) = colon_upper c"
  by (simp add: colon_upper_def upper_char_def)

text \<open>
  C5. MAC normalisation (strip, \<open>-\<close> and \<open>.\<close> to \<open>:\<close>, upper case) is idempotent: a
  normalised MAC is returned as it is; and \<open>aa-bb-cc-dd-ee-ff\<close>, \<open>aa.bb.cc.dd.ee.ff\<close>
  and \<open>AA:BB:CC:DD:EE:FF\<close> all normalise to \<open>AA:BB:CC:DD:EE:FF\<close>.
\<close>

theorem normalize_mac_idempotent:
  "normalize_mac (normalize_mac s) = normalize_mac s \<and>
   normalize_mac ''aa-bb-cc-dd-ee-ff'' = ''AA:BB:CC:DD:EE:FF'' \<and>
   normalize_mac ''aa.bb.cc.dd.ee.ff'' = ''AA:BB:CC:DD:EE:FF'' \<and>
   normalize_mac ''AA:BB:CC:DD:EE:FF'' = ''AA:BB:CC:DD:EE:FF''"
proof -
  have "normalize_mac (normalize_mac s) = normalize_mac s"
    by (simp add: normalize_mac_map strip_map isspace_colon_upper strip_strip
        colon_upper_idem)
  moreover have "normalize_mac ''aa-bb-cc-dd-ee-ff'' = ''AA:BB:CC:DD:EE:FF''"
    by code_simp
  moreover have "normalize_mac ''aa.bb.cc.dd.ee.ff'' = ''AA:BB:CC:DD:EE:FF''"
    by code_simp
  moreover have "normalize_mac ''AA:BB:CC:DD:EE:FF'' = ''AA:BB:CC:DD:EE:FF''"
    by code_simp
  ultimately show ?thesis by simp
qed

theorem normalize_mac_idempotent_witness:
  "normalize_mac (normalize_mac '' 0a-1b.2c:3D-4e-5f  '') = ''0A:1B:2C:3D:4E:5F''"
proof -
  have "normalize_mac '' 0a-1b.2c:3D-4e-5f  '' = ''0A:1B:2C:3D:4E:5F''"
    by code_simp
  then show ?thesis
    using normalize_mac_idempotent [of "'' 0a-1b.2c:3D-4e-5f  ''"] by simp
qed

section \<open>The VLAN to network map\<close>

lemma main_lan_key: "main_lan net \<Longrightarrow> spec_vlan_key net = Some 1"
  by (cases "net ''vlan''"; cases "net ''purpose''")
    (auto simp: main_lan_def spec_vlan_key_def elim: eq_one.elims)

lemma not_main_lan_key:
  "\<not> main_lan net \<Longrightarrow>
   spec_vlan_key net =
     (case net ''vlan'' of
        None \<Rightarrow> None
      | Some v \<Rightarrow> (case int_of_jval v of Inl e \<Rightarrow> None | Inr vlan_id \<Rightarrow> Some vlan_id))"
  by (auto simp: main_lan_def spec_vlan_key_def split: option.splits)

lemma map_network_spec:
  assumes "mappable net"
  shows "\<exists>st'. map_network net st = Inr st' \<and>
           map_of (vlan_map st') =
             (case spec_vlan_key net of
                None \<Rightarrow> map_of (vlan_map st)
              | Some k \<Rightarrow> (map_of (vlan_map st))(k := net ''_id'')) \<and>
           map_of (subnet_map st') =
             (case spec_vlan_key net of
                None \<Rightarrow> map_of (subnet_map st)
              | Some k \<Rightarrow> (map_of (subnet_map st))(k \<mapsto> get_ip_subnet net))"
proof (cases "main_lan net")
  case True
  with assms obtain i where "net ''_id'' = Some i" by (auto simp: mappable_def)
  with True show ?thesis
    by (simp add: map_network_def getitem_def main_lan_key update_conv')
next
  case False
  show ?thesis
  proof (cases "net ''vlan''")
    case None
    with False show ?thesis by (simp add: map_network_def not_main_lan_key)
  next
    case (Some v)
    with False assms obtain vlan_id i
      where "int_of_jval v = Inr vlan_id" and "net ''_id'' = Some i"
      by (auto simp: mappable_def split: sum.splits)
    with False Some show ?thesis
      by (simp add: map_network_def not_main_lan_key getitem_def update_conv')
  qed
qed

lemma find_app:
  "find P (xs @ ys) = (case find P xs of None \<Rightarrow> find P ys | Some x \<Rightarrow> Some x)"
  by (induction xs) simp_all

lemma map_networks_spec:
  assumes "list_all mappable nets"
  shows "snd (map_networks nets st) = None \<and>
         map_of (vlan_map (fst (map_networks nets st))) k =
           (case last_for_vlan nets k of
              None \<Rightarrow> map_of (vlan_map st) k
            | Some net \<Rightarrow> net ''_id'') \<and>
         map_of (subnet_map (fst (map_networks nets st))) k =
           (case last_for_vlan nets k of
              None \<Rightarrow> map_of (subnet_map st) k
            | Some net \<Rightarrow> Some (get_ip_subnet net))"
  using assms
proof (induction nets arbitrary: st)
  case Nil
  then show ?case by (simp add: last_for_vlan_def)
next
  case (Cons net nets)
  then have "mappable net" and rest: "list_all mappable nets" by simp_all
  then obtain st' where st': "map_network net st = Inr st'"
    and v: "map_of (vlan_map st') =
             (case spec_vlan_key net of
                None \<Rightarrow> map_of (vlan_map st)
              | Some k \<Rightarrow> (map_of (vlan_map st))(k := net ''_id''))"
    and s: "map_of (subnet_map st') =
             (case spec_vlan_key net of
                None \<Rightarrow> map_of (subnet_map st)
              | Some k \<Rightarrow> (map_of (subnet_map st))(k \<mapsto> get_ip_subnet net))"
    using map_network_spec [of net st] by blast
  have f: "last_for_vlan (net # nets) k =
        (case last_for_vlan nets k of
           None \<Rightarrow> if spec_vlan_key net = Some k then Some net else None
         | Some n \<Rightarrow> Some n)"
    by (simp add: last_for_vlan_def find_app split: option.splits)
  from Cons.IH [OF rest, of st'] st' show ?case
    by (auto simp: f v s split: option.splits)
qed

text \<open>
  C1. The VLAN map is built from the network list in list order: an object of purpose
  \<open>corporate\<close> with no \<open>vlan\<close> or with \<open>vlan\<close> equal to 1 is filed under key 1,
  any other object with a \<open>vlan\<close> under that number coerced to an integer, every other
  object nowhere; each key holds the identifier (and the subnet) of the last object
  filed under it. It is stated for the lists on which the loop does not raise (every
  mapped object has an \<open>_id\<close>, every coerced \<open>vlan\<close> is one \<open>int()\<close> accepts), and says
  that the loop then runs to its end. The subnet filed is the object's \<open>ip_subnet\<close>
  field, the empty string where it has none.
\<close>

theorem vlan_map_built:
  assumes "list_all mappable nets"
  shows "snd (map_networks nets \<lparr>vlan_map = [], subnet_map = [], out = tr\<rparr>) = None \<and>
         map_of (vlan_map (fst (map_networks nets
                   \<lparr>vlan_map = [], subnet_map = [], out = tr\<rparr>))) k =
           (case last_for_vlan nets k of None \<Rightarrow> None | Some net \<Rightarrow> net ''_id'') \<and>
         map_of (subnet_map (fst (map_networks nets
                   \<lparr>vlan_map = [], subnet_map = [], out = tr\<rparr>))) k =
           (case last_for_vlan nets k of
              None \<Rightarrow> None
            | Some net \<Rightarrow>
                (case net ''ip_subnet'' of None \<Rightarrow> Some (JStr []) | Some v \<Rightarrow> Some v))"
  using map_networks_spec [OF assms, of "\<lparr>vlan_map = [], subnet_map = [], out = tr\<rparr>" k]
  by (simp add: get_ip_subnet_def split: option.splits)

theorem vlan_map_built_witness:
  "list_all mappable example_networks \<and>
   snd (map_networks example_networks \<lparr>vlan_map = [], subnet_map = [], out = []\<rparr>) = None \<and>
   map_of (vlan_map (fst (map_networks example_networks
             \<lparr>vlan_map = [], subnet_map = [], out = []\<rparr>))) 10 = Some (JStr ''net-10b'') \<and>
   map_of (subnet_map (fst (map_networks example_networks
             \<lparr>vlan_map = [], subnet_map = [], out = []\<rparr>))) 10 =
     Some (JStr ''10.0.11.1/24'') \<and>
   map_of (vlan_map (fst (map_networks example_networks
             \<lparr>vlan_map = [], subnet_map = [], out = []\<rparr>))) 1 = Some (JStr ''net-main'') \<and>
   map_of (subnet_map (fst (map_networks example_networks
             \<lparr>vlan_map = [], subnet_map = [], out = []\<rparr>))) 1 = Some (JStr []) \<and>
   map_of (vlan_map (fst (map_networks example_networks
             \<lparr>vlan_map = [], subnet_map = [], out = []\<rparr>))) 20 = Some (JStr ''net-20'') \<and>
   map_of (subnet_map (fst (map_networks example_networks
             \<lparr>vlan_map = [], subnet_map = [], out = []\<rparr>))) 20 =
     Some (JStr ''10.0.20.1/24'') \<and>
   map_of (vlan_map (fst (map_networks example_networks
             \<lparr>vlan_map = [], subnet_map = [], out = []\<rparr>))) 30 = None"
proof -
  have m: "list_all mappable example_networks"
    by code_simp
  have i10: "(case last_for_vlan example_networks 10 of
              None \<Rightarrow> None
            | Some net \<Rightarrow> net ''_id'') = Some (JStr ''net-10b'')"
    by code_simp
  have s10: "(case last_for_vlan example_networks 10 of
              None \<Rightarrow> None
            | Some net \<Rightarrow>
                (case net ''ip_subnet'' of None \<Rightarrow> Some (JStr []) | Some v \<Rightarrow> Some v)) =
             Some (JStr ''10.0.11.1/24'')"
    by code_simp
  have i1: "(case last_for_vlan example_networks 1 of
              None \<Rightarrow> None
            | Some net \<Rightarrow> net ''_id'') = Some (JStr ''net-main'')"
    by code_simp
  have s1: "(case last_for_vlan example_networks 1 of
              None \<Rightarrow> None
            | Some net \<Rightarrow>
                (case net ''ip_subnet'' of None \<Rightarrow> Some (JStr []) | Some v \<Rightarrow> Some v)) =
             Some (JStr [])"
    by code_simp
  have i20: "(case last_for_vlan example_networks 20 of
              None \<Rightarrow> None
            | Some net \<Rightarrow> net ''_id'') = Some (JStr ''net-20'')"
    by code_simp
  have s20: "(case last_for_vlan example_networks 20 of
              None \<Rightarrow> None
            | Some net \<Rightarrow>
                (case net ''ip_subnet'' of None \<Rightarrow> Some (JStr []) | Some v \<Rightarrow> Some v)) =
             Some (JStr ''10.0.20.1/24'')"
    by code_simp
  have i30: "(case last_for_vlan example_networks 30 of
              None \<Rightarrow> None
            | Some net \<Rightarrow> net ''_id'') = None"
    by code_simp
  show ?thesis
    using m vlan_map_built [OF m, of "[]" 10] vlan_map_built [OF m, of "[]" 1]
      vlan_map_built [OF m, of "[]" 20] vlan_map_built [OF m, of "[]" 30]
    by (simp only: i10 s10 i1 s1 i20 s20 i30 simp_thms)
qed

section \<open>One row\<close>

lemma upserts_append: "upserts (xs @ ys) = upserts xs @ upserts ys"
  by (induction xs rule: upserts.induct) simp_all

lemma summaries_append: "summaries (xs @ ys) = summaries xs @ summaries ys"
  by (induction xs rule: summaries.induct) simp_all

lemma logouts_append: "logouts (xs @ ys) = logouts xs + logouts ys"
  by (induction xs rule: logouts.induct) simp_all

lemma upserts_debug: "upserts (debug m) = []"
  by (simp add: debug_def)

lemma process_row_unknown:
  assumes "row ''VLAN'' = Some cell" and "int_of_cell cell = Inr vlan_num"
    and "map_of vmap vlan_num = None \<or>
         (\<exists>i. map_of vmap vlan_num = Some i \<and> \<not> truthy i)"
  shows "process_row env vmap row st = unknown_vlan row vlan_num st"
  using assms by (auto simp: process_row_def getitem_def and_then_def)

lemma upserts_upsert: "upserts (trace (fst (upsert env p st))) = upserts (trace st) @ [p]"
  by (simp add: upsert_def Let_def upserts_append upserts_debug split: sum.splits)

text \<open>
  C3. A row whose VLAN number is not a key of the VLAN map: no request is sent for it,
  \<open>error_count\<close> grows by exactly 1 (\<open>success_count\<close> stays), and the loop goes on
  with the next row. (Every row that \<open>DictReader\<close> yields behind a header with the
  required columns has a \<open>MAC\<close> entry.)
\<close>

theorem unknown_vlan_skipped:
  assumes "row ''VLAN'' = Some cell" and "int_of_cell cell = Inr vlan_num"
    and "map_of vmap vlan_num = None" and "row ''MAC'' = Some m"
  shows "process_row env vmap row st =
           (st\<lparr>error_count := error_count st + 1,
               trace := trace st @ [Print (Unknown_vlan vlan_num m)]\<rparr>, None) \<and>
         upserts (trace (fst (process_row env vmap row st))) = upserts (trace st) \<and>
         process_rows env vmap (row # rows) st =
           process_rows env vmap rows
             (st\<lparr>error_count := error_count st + 1,
                 trace := trace st @ [Print (Unknown_vlan vlan_num m)]\<rparr>)"
proof -
  have "process_row env vmap row st =
          (st\<lparr>error_count := error_count st + 1,
              trace := trace st @ [Print (Unknown_vlan vlan_num m)]\<rparr>, None)"
    using assms by (simp add: process_row_unknown unknown_vlan_def getitem_def)
  then show ?thesis by (simp add: upserts_append)
qed

theorem unknown_vlan_skipped_witness:
  "process_row scenario vlans_10 row_b start =
     (\<lparr>success_count = 0, error_count = 1,
       trace = [Print (Unknown_vlan 99 (Some ''00-11-22-33-44-66''))]\<rparr>, None) \<and>
   process_rows scenario vlans_10 [row_b] start =
     (\<lparr>success_count = 0, error_count = 1,
       trace = [Print (Unknown_vlan 99 (Some ''00-11-22-33-44-66''))]\<rparr>, None)"
proof -
  have v: "row_b ''VLAN'' = Some (Some ''99'')" by code_simp
  have i: "int_of_cell (Some ''99'') = Inr 99" by code_simp
  have u: "map_of vlans_10 99 = None" by code_simp
  have m: "row_b ''MAC'' = Some (Some ''00-11-22-33-44-66'')" by code_simp
  show ?thesis
    using unknown_vlan_skipped [OF v i u m, of scenario start "[]"]
    by (simp add: start_def)
qed

text \<open>
  C9. A row whose VLAN number the map sends to a falsy identifier (the empty string) is
  treated exactly like a row of an unknown VLAN: the outcome is the one under the map
  without that key, no request is sent and \<open>error_count\<close> grows by 1.
\<close>

theorem falsy_network_id_skipped:
  assumes "row ''VLAN'' = Some cell" and "int_of_cell cell = Inr vlan_num"
    and "map_of vmap vlan_num = Some net_id" and "\<not> truthy net_id"
    and "row ''MAC'' = Some m"
  shows "process_row env vmap row st =
           process_row env (AList.delete vlan_num vmap) row st \<and>
         process_row env vmap row st =
           (st\<lparr>error_count := error_count st + 1,
               trace := trace st @ [Print (Unknown_vlan vlan_num m)]\<rparr>, None) \<and>
         upserts (trace (fst (process_row env vmap row st))) = upserts (trace st) \<and>
         \<not> truthy (JStr [])"
proof -
  have "map_of (AList.delete vlan_num vmap) vlan_num = None"
    by (simp add: delete_conv')
  with assms
  have "process_row env (AList.delete vlan_num vmap) row st = unknown_vlan row vlan_num st"
    by (simp add: process_row_unknown)
  moreover from assms
  have "process_row env vmap row st = unknown_vlan row vlan_num st"
    by (simp add: process_row_unknown)
  moreover have "unknown_vlan row vlan_num st =
          (st\<lparr>error_count := error_count st + 1,
              trace := trace st @ [Print (Unknown_vlan vlan_num m)]\<rparr>, None)"
    using assms by (simp add: unknown_vlan_def getitem_def)
  ultimately show ?thesis by (simp add: upserts_append)
qed

theorem falsy_network_id_skipped_witness:
  "process_row scenario [(10, JStr [])] row_a start =
     (\<lparr>success_count = 0, error_count = 1,
       trace = [Print (Unknown_vlan 10 (Some ''00-11-22-33-44-55''))]\<rparr>, None) \<and>
   process_row scenario [(10, JStr [])] row_a start = process_row scenario [] row_a start"
proof -
  have v: "row_a ''VLAN'' = Some (Some ''10'')" by code_simp
  have i: "int_of_cell (Some ''10'') = Inr 10" by code_simp
  have u: "map_of [(10, JStr [])] (10::int) = Some (JStr [])" by simp
  have t: "\<not> truthy (JStr [])" by simp
  have m: "row_a ''MAC'' = Some (Some ''00-11-22-33-44-55'')" by code_simp
  have d: "AList.delete (10::int) [(10, JStr [])] = []" by (simp add: AList.delete_eq)
  note w = falsy_network_id_skipped [OF v i u t m, of scenario start]
  have "process_row scenario [(10, JStr [])] row_a start =
          process_row scenario [] row_a start"
    using w [THEN conjunct1] by (simp only: d)
  moreover have "process_row scenario [(10, JStr [])] row_a start =
     (\<lparr>success_count = 0, error_count = 1,
       trace = [Print (Unknown_vlan 10 (Some ''00-11-22-33-44-55''))]\<rparr>, None)"
    using w [THEN conjunct2, THEN conjunct1] by (simp add: start_def)
  ultimately show ?thesis by simp
qed

text \<open>
  C4, as stated, fails: a row whose IP cell is not an address literal and whose VLAN
  cell is not a number raises \<open>ValueError\<close> at line 102. \<open>error_count\<close> stays as it
  was and the loop ends there, so the good row behind it is never processed: the run
  sends no request and prints no summary.
\<close>

theorem invalid_ip_row_aborts:
  "row_e ''IP'' = Some (Some ''bad-ip'') \<and> \<not> ip_address (strip ''bad-ip'') \<and>
   process_row scenario vlans_10 row_e start = (start, Some ValueError) \<and>
   process_rows scenario vlans_10 [row_e, row_a] start = (start, Some ValueError) \<and>
   upserts (main (scenario\<lparr>csv_file := Inr devices_bad_vlan\<rparr>)) = [] \<and>
   summaries (main (scenario\<lparr>csv_file := Inr devices_bad_vlan\<rparr>)) = [] \<and>
   error_lines (main (scenario\<lparr>csv_file := Inr devices_bad_vlan\<rparr>)) = []"
  by code_simp

text \<open>
  C4, amended. A row whose VLAN cell is an integer, whose MAC and IP cells are there and
  whose IP cell, trimmed, is not an IPv4 or IPv6 address literal (such as
  \<open>999.999.1.1\<close> or \<open>not-an-ip\<close>): no request is sent for it, \<open>error_count\<close> grows by
  exactly 1 and the loop goes on with the next row; the row is dropped for its unknown
  VLAN or for its address.
\<close>

theorem invalid_ip_skipped:
  assumes "row ''VLAN'' = Some cell" and "int_of_cell cell = Inr vlan_num"
    and "row ''MAC'' = Some (Some m)" and "row ''IP'' = Some (Some ip)"
    and "\<not> ip_address (strip ip)"
  shows "process_row env vmap row st =
           (st\<lparr>error_count := error_count st + 1,
               trace := trace st @
                 [Print (case map_of vmap vlan_num of
                           None \<Rightarrow> Unknown_vlan vlan_num (Some m)
                         | Some net_id \<Rightarrow>
                             if truthy net_id then Invalid_ip (strip ip) (normalize_mac m)
                             else Unknown_vlan vlan_num (Some m))]\<rparr>, None) \<and>
         upserts (trace (fst (process_row env vmap row st))) = upserts (trace st) \<and>
         process_rows env vmap (row # rows) st =
           process_rows env vmap rows (fst (process_row env vmap row st)) \<and>
         \<not> ip_address ''999.999.1.1'' \<and> \<not> ip_address ''not-an-ip''"
proof -
  have "process_row env vmap row st =
           (st\<lparr>error_count := error_count st + 1,
               trace := trace st @
                 [Print (case map_of vmap vlan_num of
                           None \<Rightarrow> Unknown_vlan vlan_num (Some m)
                         | Some net_id \<Rightarrow>
                             if truthy net_id then Invalid_ip (strip ip) (normalize_mac m)
                             else Unknown_vlan vlan_num (Some m))]\<rparr>, None)"
    using assms
    by (simp add: process_row_def unknown_vlan_def getitem_def and_then_def on_str_def
        split: option.splits)
  moreover have "\<not> ip_address ''999.999.1.1''" by code_simp
  moreover have "\<not> ip_address ''not-an-ip''" by code_simp
  ultimately show ?thesis by (simp add: upserts_append)
qed

theorem invalid_ip_skipped_witness:
  "process_row scenario vlans_10 row_c start =
     (\<lparr>success_count = 0, error_count = 1,
       trace = [Print (Invalid_ip ''bad-ip'' ''00:11:22:33:44:77'')]\<rparr>, None)"
proof -
  have v: "row_c ''VLAN'' = Some (Some ''10'')" by code_simp
  have i: "int_of_cell (Some ''10'') = Inr 10" by code_simp
  have m: "row_c ''MAC'' = Some (Some ''00-11-22-33-44-77'')" by code_simp
  have a: "row_c ''IP'' = Some (Some ''bad-ip'')" by code_simp
  have b: "\<not> ip_address (strip ''bad-ip'')" by code_simp
  have s: "strip ''bad-ip'' = ''bad-ip''" by code_simp
  have n: "normalize_mac ''00-11-22-33-44-77'' = ''00:11:22:33:44:77''" by code_simp
  show ?thesis
    using invalid_ip_skipped [OF v i m a b, of scenario vlans_10 start "[]"]
    by (simp add: start_def vlans_10_def s n)
qed

text \<open>
  C10. The IP cell is trimmed before it is validated and before it goes into the
  payload: a row whose trimmed IP cell is an address literal is sent, with the trimmed
  address as \<open>fixed_ip\<close>. An address with blanks around it is accepted only because of
  the trimming.
\<close>

theorem ip_trimmed:
  assumes "row ''VLAN'' = Some cell" and "int_of_cell cell = Inr vlan_num"
    and "map_of vmap vlan_num = Some net_id" and "truthy net_id"
    and "row ''MAC'' = Some (Some m)" and "row ''IP'' = Some (Some ip)"
    and "ip_address (strip ip)" and "row ''Client Name'' = Some (Some client)"
  shows "process_row env vmap row st =
           upsert env
             \<lparr>mac = normalize_mac m, fixed_ip = strip ip, name = strip client,
              network_id = net_id, use_fixedip = True,
              note_text = ''Added by unifi.py script'', vlan_enabled = True,
              vlan = vlan_num\<rparr> st \<and>
         upserts (trace (fst (process_row env vmap row st))) =
           upserts (trace st) @
             [\<lparr>mac = normalize_mac m, fixed_ip = strip ip, name = strip client,
               network_id = net_id, use_fixedip = True,
               note_text = ''Added by unifi.py script'', vlan_enabled = True,
               vlan = vlan_num\<rparr>] \<and>
         strip ''  10.0.10.5 '' = ''10.0.10.5'' \<and>
         ip_address ''10.0.10.5'' \<and> \<not> ip_address ''  10.0.10.5 ''"
proof -
  have "process_row env vmap row st =
          upsert env
            \<lparr>mac = normalize_mac m, fixed_ip = strip ip, name = strip client,
             network_id = net_id, use_fixedip = True,
             note_text = ''Added by unifi.py script'', vlan_enabled = True,
             vlan = vlan_num\<rparr> st"
    using assms by (simp add: process_row_def getitem_def and_then_def on_str_def)
  moreover have "strip ''  10.0.10.5 '' = ''10.0.10.5''" by code_simp
  moreover have "ip_address ''10.0.10.5''" by code_simp
  moreover have "\<not> ip_address ''  10.0.10.5 ''" by code_simp
  ultimately show ?thesis by (simp add: upserts_upsert)
qed

theorem ip_trimmed_witness:
  "upserts (trace (fst (process_row scenario vlans_10 row_d start))) =
     [\<lparr>mac = ''00:11:22:33:44:88'', fixed_ip = ''10.0.10.5'', name = ''laptop'',
       network_id = JStr ''net-10'', use_fixedip = True,
       note_text = ''Added by unifi.py script'', vlan_enabled = True, vlan = 10\<rparr>]"
proof -
  have v: "row_d ''VLAN'' = Some (Some ''10'')" by code_simp
  have i: "int_of_cell (Some ''10'') = Inr 10" by code_simp
  have u: "map_of vlans_10 10 = Some (JStr ''net-10'')" by code_simp
  have t: "truthy (JStr ''net-10'')" by simp
  have m: "row_d ''MAC'' = Some (Some '' 00-11-22-33-44-88'')" by code_simp
  have a: "row_d ''IP'' = Some (Some ''  10.0.10.5 '')" by code_simp
  have b: "ip_address (strip ''  10.0.10.5 '')" by code_simp
  have c: "row_d ''Client Name'' = Some (Some '' laptop '')" by code_simp
  have s: "strip ''  10.0.10.5 '' = ''10.0.10.5''" by code_simp
  have n: "normalize_mac '' 00-11-22-33-44-88'' = ''00:11:22:33:44:88''" by code_simp
  have l: "strip '' laptop '' = ''laptop''" by code_simp
  note w = ip_trimmed [OF v i u t m a b c, of scenario start]
  show ?thesis
    using w [THEN conjunct2, THEN conjunct1] by (simp add: start_def s n l)
qed

section \<open>Events of the stages\<close>

lemma setup_row_event: "setup_event e \<Longrightarrow> row_event e"
  by (cases e rule: setup_event.cases) simp_all

lemma setup_events_upserts: "list_all setup_event es \<Longrightarrow> upserts es = []"
  by (induction es rule: upserts.induct) simp_all

lemma row_events_summaries: "list_all row_event es \<Longrightarrow> summaries es = []"
  by (induction es rule: summaries.induct) simp_all

lemma row_events_logouts: "list_all row_event es \<Longrightarrow> logouts es = 0"
  by (induction es rule: logouts.induct) simp_all

lemma row_events_no_logout: "list_all row_event es \<Longrightarrow> Post_logout \<notin> set es"
  by (induction es) auto

lemma setup_row_events: "list_all setup_event es \<Longrightarrow> list_all row_event es"
  by (induction es) (simp_all add: setup_row_event)

lemma setup_debug: "setup_event (Print m) \<Longrightarrow> list_all setup_event (debug m)"
  by (simp add: debug_def)

lemma establish_session_setup: "list_all setup_event (fst (establish_session env))"
  by (simp add: establish_session_def Let_def split: sum.splits option.splits)

lemma map_network_setup:
  "map_network net st = Inr st' \<Longrightarrow> list_all setup_event (out st) \<Longrightarrow>
   list_all setup_event (out st')"
  by (auto simp: map_network_def setup_debug split: if_splits sum.splits option.splits)

lemma map_networks_setup:
  "list_all setup_event (out st) \<Longrightarrow> list_all setup_event (out (fst (map_networks nets st)))"
proof (induction nets arbitrary: st)
  case Nil
  then show ?case by simp
next
  case (Cons net nets)
  then show ?case by (auto split: sum.splits dest: map_network_setup)
qed

lemma fetch_vlan_map_setup:
  assumes "list_all setup_event tr"
  shows "list_all setup_event (out (fst (fetch_vlan_map env tr)))"
proof (cases "networkconf env")
  case (Inl e)
  with assms show ?thesis by (simp add: fetch_vlan_map_def)
next
  case (Inr r)
  show ?thesis
  proof (cases "raise_for_status r = None \<and> (\<exists>nets. json_data r = Inr nets)")
    case False
    with Inr assms show ?thesis
      by (auto simp: fetch_vlan_map_def Let_def split: option.splits sum.splits)
  next
    case True
    then obtain nets where r: "raise_for_status r = None" "json_data r = Inr nets" by blast
    define st0 where "st0 = \<lparr>vlan_map = [], subnet_map = [],
      out = tr @ [Get_networkconf] @ debug (Found_networks (length nets))\<rparr>"
    have "list_all setup_event (out st0)" by (simp add: st0_def assms setup_debug)
    then have "list_all setup_event (out (fst (map_networks nets st0)))"
      by (rule map_networks_setup)
    with Inr r show ?thesis
      by (cases "map_networks nets st0")
        (auto simp: fetch_vlan_map_def Let_def st0_def setup_debug split: option.splits)
  qed
qed

lemma upsert_row_events:
  "list_all row_event (trace st) \<Longrightarrow> list_all row_event (trace (fst (upsert env p st)))"
  by (simp add: upsert_def Let_def debug_def split: sum.splits)

lemma process_row_row_events:
  "list_all row_event (trace st) \<Longrightarrow> list_all row_event (trace (fst (process_row env vmap row st)))"
  by (simp add: process_row_def unknown_vlan_def upsert_row_events
      split: sum.splits option.splits)

lemma process_rows_row_events:
  "list_all row_event (trace st) \<Longrightarrow>
   list_all row_event (trace (fst (process_rows env vmap rows st)))"
proof (induction rows arbitrary: st)
  case Nil
  then show ?case by simp
next
  case (Cons row rows)
  from Cons.prems have "list_all row_event (trace (fst (process_row env vmap row st)))"
    by (rule process_row_row_events)
  with Cons.IH show ?case
    by (cases "process_row env vmap row st") (auto split: option.splits)
qed

lemma upsert_counts:
  "upsert env p st = (st', None) \<Longrightarrow>
   (success_count st' = success_count st + 1 \<and> error_count st' = error_count st) \<or>
   (success_count st' = success_count st \<and> error_count st' = error_count st + 1)"
  by (auto simp: upsert_def Let_def split: sum.splits if_splits)

lemma process_row_counts:
  "process_row env vmap row st = (st', None) \<Longrightarrow>
   (success_count st' = success_count st + 1 \<and> error_count st' = error_count st) \<or>
   (success_count st' = success_count st \<and> error_count st' = error_count st + 1)"
  by (auto simp: process_row_def unknown_vlan_def
      split: sum.splits option.splits if_splits dest: upsert_counts)

lemma process_rows_counts:
  "process_rows env vmap rows st = (st', None) \<Longrightarrow>
   success_count st' + error_count st' = success_count st + error_count st + length rows"
proof (induction rows arbitrary: st)
  case Nil
  then show ?case by simp
next
  case (Cons row rows)
  then obtain st1 where r: "process_row env vmap row st = (st1, None)"
    and rs: "process_rows env vmap rows st1 = (st', None)"
    by (cases "process_row env vmap row st") (auto split: option.splits)
  from process_row_counts [OF r] Cons.IH [OF rs] show ?case by auto
qed

section \<open>The CSV stage and the whole run\<close>

lemma read_csv_shape:
  assumes "list_all row_event tr"
  shows "case read_csv env vmap tr of
           (tr', Completed) \<Rightarrow>
             \<exists>es s e records. tr' = es @ [Print (Summary s e)] \<and> list_all row_event es \<and>
                csv_file env = Inr records \<and> s + e = length (data_rows records)
         | (tr', c) \<Rightarrow> list_all row_event tr'"
proof (cases "csv_file env")
  case (Inl e)
  with assms show ?thesis by (simp add: read_csv_def)
next
  case (Inr records)
  show ?thesis
  proof (cases "fieldnames_of records")
    case None
    with Inr assms show ?thesis by (simp add: read_csv_def)
  next
    case (Some fieldnames)
    show ?thesis
    proof (cases "list_all (\<lambda>field. field \<in> set fieldnames) required_fields")
      case False
      with Inr Some assms show ?thesis by (simp add: read_csv_def)
    next
      case True
      define st0 where "st0 = \<lparr>success_count = 0, error_count = 0, trace = tr @ [Open_csv]\<rparr>"
      define rows where "rows = map (dict_row fieldnames) (data_rows records)"
      obtain st x where p: "process_rows env vmap rows st0 = (st, x)"
        by (cases "process_rows env vmap rows st0")
      have "list_all row_event (trace st0)" by (simp add: st0_def assms)
      then have "list_all row_event (trace (fst (process_rows env vmap rows st0)))"
        by (rule process_rows_row_events)
      with p have ev: "list_all row_event (trace st)" by simp
      show ?thesis
      proof (cases x)
        case None
        with p have "success_count st + error_count st = length rows"
          using process_rows_counts [of env vmap rows st0 st] by (simp add: st0_def)
        then have "success_count st + error_count st = length (data_rows records)"
          by (simp add: rows_def)
        with Inr Some True p None ev show ?thesis
          by (simp add: read_csv_def st0_def [symmetric] rows_def [symmetric])
      next
        case (Some e)
        with Inr \<open>fieldnames_of records = Some fieldnames\<close> True p ev show ?thesis
          by (simp add: read_csv_def st0_def [symmetric] rows_def [symmetric])
      qed
    qed
  qed
qed


lemma push_static_dhcp_shape:
  assumes "list_all row_event tr"
  shows "case push_static_dhcp env vmap tr of
           (tr', Completed) \<Rightarrow>
             \<exists>es s e records. tr' = es @ [Print (Summary s e)] \<and> list_all row_event es \<and>
                csv_file env = Inr records \<and> s + e = length (data_rows records)
         | (tr', c) \<Rightarrow> list_all row_event tr'"
proof -
  obtain tr' c where r: "read_csv env vmap tr = (tr', c)"
    by (cases "read_csv env vmap tr")
  with read_csv_shape [OF assms, of env vmap] show ?thesis
    by (cases c) (auto simp: push_static_dhcp_def)
qed



lemma main_try_stages:
  "\<exists>es. list_all setup_event es \<and>
     ((\<exists>e. main_try env = (es, Raised e)) \<or>
      (\<exists>vmap. main_try env = push_static_dhcp env vmap es))"
proof -
  obtain tr x where s: "establish_session env = (tr, x)"
    by (cases "establish_session env")
  with establish_session_setup [of env] have tr: "list_all setup_event tr" by simp
  show ?thesis
  proof (cases x)
    case (Some e)
    with s tr show ?thesis by (auto simp: main_try_def)
  next
    case None
    obtain st y where f: "fetch_vlan_map env tr = (st, y)"
      by (cases "fetch_vlan_map env tr")
    with fetch_vlan_map_setup [OF tr, of env] have "list_all setup_event (out st)" by simp
    with s None f show ?thesis by (cases y) (auto simp: main_try_def)
  qed
qed

lemma main_try_shape:
  "case main_try env of
     (tr', Completed) \<Rightarrow>
       \<exists>es s e records. tr' = es @ [Print (Summary s e)] \<and> list_all row_event es \<and>
          csv_file env = Inr records \<and> s + e = length (data_rows records)
   | (tr', c) \<Rightarrow> list_all row_event tr'"
proof -
  obtain es where es: "list_all setup_event es"
    and c: "(\<exists>e. main_try env = (es, Raised e)) \<or>
            (\<exists>vmap. main_try env = push_static_dhcp env vmap es)"
    using main_try_stages [of env] by blast
  from es have r: "list_all row_event es" by (rule setup_row_events)
  from c show ?thesis
  proof
    assume "\<exists>e. main_try env = (es, Raised e)"
    with r show ?thesis by auto
  next
    assume "\<exists>vmap. main_try env = push_static_dhcp env vmap es"
    then obtain vmap where "main_try env = push_static_dhcp env vmap es" ..
    with push_static_dhcp_shape [OF r, of env vmap] show ?thesis by simp
  qed
qed

lemma summaries_handlers: "summaries (handlers c) = []"
  by (simp add: handlers_def split: control.splits)

lemma summaries_logout_finally: "summaries (logout_finally env) = []"
  by (simp add: logout_finally_def split: sum.splits)

lemma summaries_main: "summaries (main env) = summaries (fst (main_try env))"
  by (simp add: main_def summaries_append summaries_handlers summaries_logout_finally
      split: prod.splits)

lemma summaries_main_cases:
  "(snd (main_try env) = Completed \<and>
      (\<exists>s e records. summaries (main env) = [(s, e)] \<and> csv_file env = Inr records \<and>
         s + e = length (data_rows records))) \<or>
   (snd (main_try env) \<noteq> Completed \<and> summaries (main env) = [])"
proof -
  obtain tr c where m: "main_try env = (tr, c)" by (cases "main_try env")
  show ?thesis
  proof (cases "c = Completed")
    case True
    with m main_try_shape [of env] obtain es s e records
      where "tr = es @ [Print (Summary s e)]" "list_all row_event es"
        "csv_file env = Inr records" "s + e = length (data_rows records)"
      by auto
    with m True show ?thesis
      by (auto simp: summaries_main summaries_append row_events_summaries)
  next
    case False
    with m main_try_shape [of env] have "list_all row_event tr" by (cases c) auto
    with m False show ?thesis by (simp add: summaries_main row_events_summaries)
  qed
qed

text \<open>
  C2. After a run that reaches the summary line, the two printed counters add up to the
  number of data rows of the CSV file (the records behind the header, blank lines
  apart): every row that the loop gets past adds exactly 1 to exactly one of
  \<open>success_count\<close> and \<open>error_count\<close>.
\<close>

theorem run_summary_counts:
  "(csv_file env = Inr records \<longrightarrow> (s, e) \<in> set (summaries (main env)) \<longrightarrow>
      s + e = length (data_rows records)) \<and>
   (process_row env vmap row st = (st', None) \<longrightarrow>
      (success_count st' = success_count st + 1 \<and> error_count st' = error_count st) \<or>
      (success_count st' = success_count st \<and> error_count st' = error_count st + 1))"
  using summaries_main_cases [of env] process_row_counts [of env vmap row st st'] by auto


lemma upserts_handlers: "upserts (handlers c) = []"
  by (simp add: handlers_def split: control.splits)

lemma upserts_logout_finally: "upserts (logout_finally env) = []"
  by (simp add: logout_finally_def split: sum.splits)

text \<open>
  C6. If the header of the CSV file lacks one of the columns \<open>VLAN\<close>, \<open>MAC\<close>,
  \<open>Client Name\<close>, \<open>IP\<close>, the CSV stage prints the error and returns before any row
  is processed; the whole run sends no request to the user endpoint and prints no
  summary.
\<close>

theorem missing_column_aborts:
  assumes "csv_file env = Inr (header # records)"
    and "\<not> list_all (\<lambda>field. field \<in> set header) required_fields"
  shows "push_static_dhcp env vmap tr = (tr @ [Open_csv, Print Columns_missing], Returned) \<and>
         upserts (main env) = [] \<and> summaries (main env) = []"
proof -
  have p: "push_static_dhcp env v t = (t @ [Open_csv, Print Columns_missing], Returned)"
    for v t
    using assms by (simp add: push_static_dhcp_def read_csv_def fieldnames_of_def)
  obtain es where es: "list_all setup_event es"
    and c: "(\<exists>e. main_try env = (es, Raised e)) \<or>
            (\<exists>v. main_try env = push_static_dhcp env v es)"
    using main_try_stages [of env] by blast
  from c p obtain c' where m: "main_try env = (es, c') \<or>
      main_try env = (es @ [Open_csv, Print Columns_missing], c')" and c': "c' \<noteq> Completed"
    by auto
  from m es have "upserts (main env) = []"
    by (auto simp: main_def upserts_append upserts_handlers upserts_logout_finally
        setup_events_upserts)
  moreover from m c' have "summaries (main env) = []"
    using summaries_main_cases [of env] by auto
  ultimately show ?thesis using p by simp
qed

lemma upsert_logout: "upsert (env\<lparr>logout := r\<rparr>) p st = upsert env p st"
  by (simp add: upsert_def)

lemma process_row_logout:
  "process_row (env\<lparr>logout := r\<rparr>) vmap row st = process_row env vmap row st"
  by (simp add: process_row_def upsert_logout cong: sum.case_cong option.case_cong if_cong)

lemma process_rows_logout:
  "process_rows (env\<lparr>logout := r\<rparr>) vmap rows st = process_rows env vmap rows st"
  by (induction rows arbitrary: st) (simp_all add: process_row_logout)

lemma establish_session_logout:
  "establish_session (env\<lparr>logout := r\<rparr>) = establish_session env"
  by (simp add: establish_session_def cong: sum.case_cong option.case_cong)

lemma fetch_vlan_map_logout:
  "fetch_vlan_map (env\<lparr>logout := r\<rparr>) tr = fetch_vlan_map env tr"
  by (simp add: fetch_vlan_map_def cong: sum.case_cong option.case_cong)

lemma read_csv_logout: "read_csv (env\<lparr>logout := r\<rparr>) vmap tr = read_csv env vmap tr"
  by (simp add: read_csv_def process_rows_logout cong: sum.case_cong option.case_cong if_cong)

lemma push_static_dhcp_logout:
  "push_static_dhcp (env\<lparr>logout := r\<rparr>) vmap tr = push_static_dhcp env vmap tr"
  by (simp add: push_static_dhcp_def read_csv_logout cong: prod.case_cong)

lemma main_try_logout: "main_try (env\<lparr>logout := r\<rparr>) = main_try env"
  by (simp add: main_try_def establish_session_logout fetch_vlan_map_logout
      push_static_dhcp_logout cong: prod.case_cong option.case_cong)

lemma main_try_no_logout:
  "main_try env = (tr, c) \<Longrightarrow> Post_logout \<notin> set (tr @ handlers c)"
  using main_try_shape [of env]
  by (cases c) (auto simp: handlers_def dest: row_events_no_logout)

lemma split_at_first:
  "x \<notin> set xs \<Longrightarrow>
   takeWhile (\<lambda>e. e \<noteq> x) (xs @ x # ys) = xs \<and> dropWhile (\<lambda>e. e \<noteq> x) (xs @ x # ys) = x # ys"
  by (induction xs) auto

lemma main_split:
  assumes "main_try env = (tr, c)"
  shows "takeWhile (\<lambda>e. e \<noteq> Post_logout) (main env) = tr @ handlers c \<and>
         dropWhile (\<lambda>e. e \<noteq> Post_logout) (main env) = logout_finally env"
proof -
  from assms have n: "Post_logout \<notin> set (tr @ handlers c)" by (rule main_try_no_logout)
  obtain ys where l: "logout_finally env = Post_logout # ys"
    by (cases "logout env") (simp_all add: logout_finally_def)
  have "main env = (tr @ handlers c) @ Post_logout # ys"
    using assms l by (simp add: main_def)
  with split_at_first [OF n, of ys] l show ?thesis by simp
qed


lemma no_logout_logouts: "Post_logout \<notin> set es \<Longrightarrow> logouts es = 0"
  by (induction es rule: logouts.induct) simp_all

lemma logouts_main: "logouts (main env) = 1"
proof -
  obtain tr c where m: "main_try env = (tr, c)" by (cases "main_try env")
  then have "Post_logout \<notin> set (tr @ handlers c)" by (rule main_try_no_logout)
  then have "logouts (tr @ handlers c) = 0" by (rule no_logout_logouts)
  moreover have "logouts (logout_finally env) = 1"
    by (simp add: logout_finally_def split: sum.splits)
  ultimately show ?thesis using m by (simp add: main_def logouts_append)
qed

text \<open>
  C7, as stated, fails: when the login raises, the run prints its error line and logs
  out, but prints no summary.
\<close>

theorem summary_not_printed_after_abort:
  "main (scenario\<lparr>login := Inl RequestException\<rparr>) =
     [Print Connecting, Post_login, Print Network_error, Post_logout, Print Logged_out] \<and>
   summaries (main (scenario\<lparr>login := Inl RequestException\<rparr>)) = []"
  by code_simp

text \<open>
  C7, amended. On every path of \<open>main\<close> the logout is attempted exactly once, after
  everything else; its outcome decides only whether the line \<open>Logged out\<close> follows it,
  and changes neither the events before it nor the exit status. The summary is printed
  exactly when the body of the \<open>try\<close> runs to its end, never after an aborting error or
  an early return.
\<close>

theorem logout_always_attempted:
  "logouts (main env) = 1 \<and>
   takeWhile (\<lambda>e. e \<noteq> Post_logout) (main (env\<lparr>logout := r\<rparr>)) =
     takeWhile (\<lambda>e. e \<noteq> Post_logout) (main env) \<and>
   dropWhile (\<lambda>e. e \<noteq> Post_logout) (main env) =
     (case logout env of
        Inl e \<Rightarrow> [Post_logout]
      | Inr resp \<Rightarrow> [Post_logout, Print Logged_out]) \<and>
   snd (script (env\<lparr>logout := r\<rparr>)) = snd (script env) \<and>
   (summaries (main env) \<noteq> [] \<longleftrightarrow> snd (main_try env) = Completed)"
proof -
  obtain tr c where m: "main_try env = (tr, c)" by (cases "main_try env")
  then have m': "main_try (env\<lparr>logout := r\<rparr>) = (tr, c)" by (simp add: main_try_logout)
  have "takeWhile (\<lambda>e. e \<noteq> Post_logout) (main (env\<lparr>logout := r\<rparr>)) =
        takeWhile (\<lambda>e. e \<noteq> Post_logout) (main env)"
    using main_split [OF m] main_split [OF m'] by simp
  moreover have "dropWhile (\<lambda>e. e \<noteq> Post_logout) (main env) =
     (case logout env of
        Inl e \<Rightarrow> [Post_logout]
      | Inr resp \<Rightarrow> [Post_logout, Print Logged_out])"
    using main_split [OF m] by (simp add: logout_finally_def)
  moreover have "snd (script (env\<lparr>logout := r\<rparr>)) = snd (script env)"
    by (simp add: script_def)
  moreover have "summaries (main env) \<noteq> [] \<longleftrightarrow> snd (main_try env) = Completed"
    using summaries_main_cases [of env] by auto
  ultimately show ?thesis by (simp add: logouts_main)
qed

theorem logout_always_attempted_witness:
  "logouts (main scenario) = 1 \<and>
   takeWhile (\<lambda>e. e \<noteq> Post_logout) (main (scenario\<lparr>logout := Inl RequestException\<rparr>)) =
     takeWhile (\<lambda>e. e \<noteq> Post_logout) (main scenario) \<and>
   dropWhile (\<lambda>e. e \<noteq> Post_logout) (main scenario) = [Post_logout, Print Logged_out] \<and>
   summaries (main scenario) \<noteq> []"
proof -
  have l: "logout scenario = Inr response_200" by (simp add: scenario_def)
  have c: "snd (main_try scenario) = Completed" by code_simp
  show ?thesis
    using logout_always_attempted [of scenario "Inl RequestException"] by (simp add: l c)
qed














theorem run_summary_counts_witness:
  "csv_file scenario = Inr devices_csv \<and>
   (1, 2) \<in> set (summaries (main scenario)) \<and>
   (1::nat) + 2 = length (data_rows devices_csv) \<and>
   process_row scenario vlans_10 row_a start =
     (fst (process_row scenario vlans_10 row_a start), None) \<and>
   success_count (fst (process_row scenario vlans_10 row_a start)) = 1 \<and>
   error_count (fst (process_row scenario vlans_10 row_a start)) = 0"
proof -
  have c: "csv_file scenario = Inr devices_csv" by (simp add: scenario_def)
  have s: "(1, 2) \<in> set (summaries (main scenario))" by code_simp
  have r: "process_row scenario vlans_10 row_a start =
             (fst (process_row scenario vlans_10 row_a start), None)"
    by code_simp
  have n: "success_count (fst (process_row scenario vlans_10 row_a start)) = 1"
    by code_simp
  have z: "success_count start = 0" "error_count start = 0" by (simp_all add: start_def)
  show ?thesis
    using run_summary_counts [of scenario devices_csv 1 2 vlans_10 row_a start
        "fst (process_row scenario vlans_10 row_a start)"] c s r n z
    by simp
qed

theorem missing_column_aborts_witness:
  "push_static_dhcp
     (scenario\<lparr>csv_file := Inr [[''VLAN'', ''MAC'', ''Client Name''], [''10'', ''aa'', ''x'']]\<rparr>)
     vlans_10 [] = ([Open_csv, Print Columns_missing], Returned) \<and>
   upserts (main
     (scenario\<lparr>csv_file := Inr [[''VLAN'', ''MAC'', ''Client Name''], [''10'', ''aa'', ''x'']]\<rparr>))
     = []"
proof -
  have c: "csv_file
      (scenario\<lparr>csv_file := Inr [[''VLAN'', ''MAC'', ''Client Name''], [''10'', ''aa'', ''x'']]\<rparr>) =
      Inr ([''VLAN'', ''MAC'', ''Client Name''] # [[''10'', ''aa'', ''x'']])"
    by simp
  have h: "\<not> list_all (\<lambda>field. field \<in> set [''VLAN'', ''MAC'', ''Client Name''])
             required_fields"
    by (simp add: required_fields_def)
  show ?thesis
    using missing_column_aborts [OF c h, of vlans_10 "[]"] by simp
qed

end
